theory Spec2Isabelle
  imports Complex_Main
begin

section \<open>Python string primitives used by the transcriber\<close>

text \<open>
  The program is \<^verbatim>\<open>src/app.py\<close>. Python strings are modelled as \<^typ>\<open>string\<close>; a
  character is a code point below 256. Python integers are \<^typ>\<open>int\<close>.

  \<^verbatim>\<open>str.strip()\<close> and \<^verbatim>\<open>str.split()\<close> treat the same characters as white space; below
  256 these are the code points 9-13, 28-32, 133 and 160.
\<close>

definition isspace :: "char \<Rightarrow> bool" where
  "isspace c \<longleftrightarrow> c \<in> set [CHR 0x09, CHR 0x0A, CHR 0x0B, CHR 0x0C, CHR 0x0D,
                          CHR 0x1C, CHR 0x1D, CHR 0x1E, CHR 0x1F, CHR 0x20,
                          CHR 0x85, CHR 0xA0]"

text \<open>\<^verbatim>\<open>s.strip()\<close> and \<^verbatim>\<open>s.strip(chars)\<close>: remove the characters from both ends.\<close>

definition strip_by :: "(char \<Rightarrow> bool) \<Rightarrow> string \<Rightarrow> string" where
  "strip_by p s = rev (dropWhile p (rev (dropWhile p s)))"

definition strip :: "string \<Rightarrow> string" where
  "strip s = strip_by isspace s"

definition strip_chars :: "string \<Rightarrow> string \<Rightarrow> string" where
  "strip_chars cs s = strip_by (\<lambda>c. c \<in> set cs) s"

text \<open>\<^verbatim>\<open>s.split(sep)\<close> for a one-character separator: always at least one field.\<close>

fun split_on :: "char \<Rightarrow> string \<Rightarrow> string list" where
  "split_on sep [] = [[]]"
| "split_on sep (c # cs) =
     (if c = sep then [] # split_on sep cs
      else (case split_on sep cs of
              [] \<Rightarrow> [[c]]
            | w # ws \<Rightarrow> (c # w) # ws))"

text \<open>
  \<^verbatim>\<open>s.split()\<close>: the maximal runs of characters that are not white space.
  The first argument is the current run, reversed.
\<close>

fun split_ws_from :: "string \<Rightarrow> string \<Rightarrow> string list" where
  "split_ws_from cur [] = (if cur = [] then [] else [rev cur])"
| "split_ws_from cur (c # cs) =
     (if isspace c
      then (if cur = [] then split_ws_from [] cs else rev cur # split_ws_from [] cs)
      else split_ws_from (c # cur) cs)"

definition split_ws :: "string \<Rightarrow> string list" where
  "split_ws s = split_ws_from [] s"

text \<open>\<^verbatim>\<open>sep.join(xs)\<close>.\<close>

fun join :: "string \<Rightarrow> string list \<Rightarrow> string" where
  "join sep [] = []"
| "join sep [x] = x"
| "join sep (x # y # ys) = x @ sep @ join sep (y # ys)"

text \<open>\<^verbatim>\<open>s.find(c)\<close>: the first position of the character, or \<open>-1\<close>.\<close>

definition find_char :: "char \<Rightarrow> string \<Rightarrow> int" where
  "find_char c s = (if c \<in> set s then int (length (takeWhile (\<lambda>x. x \<noteq> c) s)) else - 1)"

text \<open>
  \<^verbatim>\<open>s[a:b]\<close> and \<^verbatim>\<open>s[a:]\<close>: a negative bound counts from the end, and every bound is
  clipped to the string.
\<close>

definition slice_bound :: "int \<Rightarrow> int \<Rightarrow> nat" where
  "slice_bound i n = nat (if i < 0 then max 0 (i + n) else min i n)"

definition slice :: "string \<Rightarrow> int \<Rightarrow> int \<Rightarrow> string" where
  "slice s a b =
     (let n = int (length s); lo = slice_bound a n; hi = slice_bound b n
      in take (hi - lo) (drop lo s))"

definition slice_from :: "string \<Rightarrow> int \<Rightarrow> string" where
  "slice_from s a = drop (slice_bound a (int (length s))) s"

text \<open>
  \<^verbatim>\<open>int(s)\<close> in base 10: white space around, an optional sign, then decimal digits with
  single underscores allowed between digits. Anything else raises \<^verbatim>\<open>ValueError\<close>, which
  is \<open>None\<close> here.

  The white space that \<^verbatim>\<open>int\<close> skips is not that of \<^verbatim>\<open>str.strip()\<close>: the code points 28-31
  are not skipped (\<^verbatim>\<open>int('\x1c1')\<close> raises \<^verbatim>\<open>ValueError\<close>, while \<^verbatim>\<open>'\x1c1'.strip()\<close> is
  \<^verbatim>\<open>'1'\<close>). Below 256 it skips the code points 9-13, 32, 133 and 160.

  CPython also raises \<^verbatim>\<open>ValueError\<close> when the string has more digits than
  \<^verbatim>\<open>sys.get_int_max_str_digits()\<close>, 4300 unless configured otherwise. Every digit counts,
  leading zeros too; the sign, the underscores and the white space do not.
\<close>

definition int_space :: "char \<Rightarrow> bool" where
  "int_space c \<longleftrightarrow> c \<in> set [CHR 0x09, CHR 0x0A, CHR 0x0B, CHR 0x0C, CHR 0x0D, CHR 0x20,
                            CHR 0x85, CHR 0xA0]"

definition max_str_digits :: nat where
  "max_str_digits = 4300"

definition is_digit :: "char \<Rightarrow> bool" where
  "is_digit c \<longleftrightarrow> c \<in> set ''0123456789''"

definition digit_val :: "char \<Rightarrow> nat" where
  "digit_val c = of_char c - 48"

fun digits_ok :: "string \<Rightarrow> bool" where
  "digits_ok [] = False"
| "digits_ok [c] = is_digit c"
| "digits_ok (c # d # cs) =
     (is_digit c \<and> (if d = CHR ''_'' then digits_ok cs else digits_ok (d # cs)))"

definition decimal :: "string \<Rightarrow> nat" where
  "decimal ds = foldl (\<lambda>a c. 10 * a + digit_val c) 0 (filter (\<lambda>c. c \<noteq> CHR ''_'') ds)"

text \<open>The digits after the sign: their value, or \<open>None\<close> for \<^verbatim>\<open>ValueError\<close>.\<close>

definition int_digits :: "string \<Rightarrow> nat option" where
  "int_digits ds =
     (if digits_ok ds \<and> length (filter (\<lambda>c. c \<noteq> CHR ''_'') ds) \<le> max_str_digits
      then Some (decimal ds) else None)"

definition py_int :: "string \<Rightarrow> int option" where
  "py_int s =
     (case strip_by int_space s of
        [] \<Rightarrow> None
      | c # cs \<Rightarrow>
          if c = CHR ''-'' then map_option (\<lambda>n. - int n) (int_digits cs)
          else if c = CHR ''+'' then map_option int (int_digits cs)
          else map_option int (int_digits (c # cs)))"

section \<open>Line parser and hallucination filter\<close>

text \<open>
  \<^verbatim>\<open>parse_timestamp\<close>: strip the brackets, split at \<open>:\<close>, read exactly two integers.
  Every exception (a field that is no integer, fewer or more than two fields) is caught
  by the bare \<^verbatim>\<open>except\<close> and becomes \<open>None\<close>.
\<close>

definition parse_timestamp :: "string \<Rightarrow> int option" where
  "parse_timestamp timestamp_str =
     (case split_on (CHR '':'') (strip_chars ''[]'' timestamp_str) of
        [a, b] \<Rightarrow>
          (case py_int a of
             None \<Rightarrow> None
           | Some mm \<Rightarrow>
               (case py_int b of
                  None \<Rightarrow> None
                | Some ss \<Rightarrow> Some (mm * 60 + ss)))
      | _ \<Rightarrow> None)"

text \<open>The 2-word windows \<^verbatim>\<open>' '.join(words[i:i+2]) for i in range(0, len(words)-1)\<close>.\<close>

definition word_pairs :: "string list \<Rightarrow> string list" where
  "word_pairs ws =
     map (\<lambda>i. join '' '' (take 2 (drop i ws))) [0 ..< length ws - 1]"

definition detect_repetition_pattern :: "string \<Rightarrow> bool" where
  "detect_repetition_pattern txt =
     (if txt = [] then True
      else let chars = filter (\<lambda>c. c \<noteq> CHR '' '') txt in
        if length chars > 2 \<and> card (set chars) = 1 then True
        else let ws = split_ws txt in
          if length ws > 2 \<and> card (set ws) = 1 then True
          else if length ws > 2 \<and> length ws > 4 \<and> card (set (word_pairs ws)) = 1 then True
          else False)"

definition is_valid_text :: "string \<Rightarrow> string set \<Rightarrow> string \<Rightarrow> bool" where
  "is_valid_text txt seen prev =
     (if txt = [] then False
      else if detect_repetition_pattern txt then False
      else if txt \<in> seen then False
      else if txt = prev then False
      else True)"

section \<open>Timeline normalizer and subtitle formatter\<close>






text \<open>
  \<^verbatim>\<open>format_srt\<close> appends one rendered block per accepted line. The values a block is
  rendered from (\<^verbatim>\<open>current_entry\<close>, \<^verbatim>\<open>start_time\<close>, \<^verbatim>\<open>end_time\<close>, \<^verbatim>\<open>text\<close>) are kept here
  as a record, the subtitle entry; \<open>render_entry\<close> is the f-string of the source.
\<close>

record subtitle_entry =
  entry_index :: int
  start_seconds :: int
  end_seconds :: int
  entry_text :: string


text \<open>The local variables of \<^verbatim>\<open>format_srt\<close> that live across loop iterations.\<close>

record srt_state =
  entries :: "subtitle_entry list"
  seen_timestamps :: "int set"
  seen_texts :: "string set"
  current_entry :: int
  last_end_time :: int
  last_text :: string

definition init_state :: srt_state where
  "init_state =
     \<lparr>entries = [], seen_timestamps = {}, seen_texts = {}, current_entry = 1,
      last_end_time = 0, last_text = []\<rparr>"

text \<open>The two slices the loop body takes from a line.\<close>

definition timestamp_part :: "string \<Rightarrow> string" where
  "timestamp_part line =
     slice line (find_char (CHR ''['') line) (find_char (CHR '']'') line + 1)"

definition text_part :: "string \<Rightarrow> string" where
  "text_part line = strip (slice_from line (find_char (CHR '']'') line + 1))"

text \<open>
  One iteration of the loop. Each \<^verbatim>\<open>continue\<close> returns the state as it is. Nothing
  between the last \<^verbatim>\<open>continue\<close> and the end of the body can raise on integers and
  strings, so the handler \<^verbatim>\<open>except Exception: continue\<close> has no branch of its own.
\<close>

definition srt_line :: "srt_state \<Rightarrow> string \<Rightarrow> srt_state" where
  "srt_line st line =
     (if strip line = [] \<or> CHR ''['' \<notin> set line then st
      else let txt = text_part line in
        if \<not> is_valid_text txt (seen_texts st) (last_text st) then st
        else (case parse_timestamp (timestamp_part line) of
                None \<Rightarrow> st
              | Some t \<Rightarrow>
                  if t \<in> seen_timestamps st then st
                  else let start_time = max t (last_end_time st + 1);
                           end_time = start_time + 3
                       in \<lparr>entries = entries st @
                              [\<lparr>entry_index = current_entry st, start_seconds = start_time,
                                end_seconds = end_time, entry_text = txt\<rparr>],
                           seen_timestamps = insert start_time (seen_timestamps st),
                           seen_texts = insert txt (seen_texts st),
                           current_entry = current_entry st + 1,
                           last_end_time = end_time,
                           last_text = txt\<rparr>))"

definition srt_lines :: "srt_state \<Rightarrow> string list \<Rightarrow> srt_state" where
  "srt_lines st ls = foldl srt_line st ls"

definition srt_entries :: "string \<Rightarrow> subtitle_entry list" where
  "srt_entries timestamps_text =
     entries (srt_lines init_state (split_on (CHR 0x0A) timestamps_text))"


section \<open>Segmenter\<close>

text \<open>
  \<^verbatim>\<open>split_audio\<close>, as a function of the length of the decoded audio in milliseconds and
  of \<^verbatim>\<open>segment_duration\<close>. A chunk records the bounds of the slice \<^verbatim>\<open>audio[start:end]\<close>
  and the \<^verbatim>\<open>start_time\<close> stored with it; \<open>chunk_no\<close> is the \<open>i\<close> of the file name.

  The source computes \<^verbatim>\<open>math.ceil(length_ms / segment_duration)\<close> on the floating-point
  quotient. The quotient of two integers is correctly rounded, and below \<open>2^53\<close>
  milliseconds (some 285000 years of audio) its ceiling is the ceiling of the exact
  quotient, which is what \<open>num_segments\<close> computes. A zero \<^verbatim>\<open>segment_duration\<close> raises
  \<^verbatim>\<open>ZeroDivisionError\<close>: \<open>None\<close>.
\<close>

record audio_chunk =
  chunk_no :: nat
  slice_start :: int
  slice_end :: int
  start_time :: int

definition num_segments :: "int \<Rightarrow> int \<Rightarrow> int" where
  "num_segments length_ms segment_duration = - ((- length_ms) div segment_duration)"

definition make_chunk :: "int \<Rightarrow> int \<Rightarrow> nat \<Rightarrow> audio_chunk" where
  "make_chunk length_ms segment_duration i =
     (let start = int i * segment_duration;
          end = min ((int i + 1) * segment_duration) length_ms
      in \<lparr>chunk_no = i, slice_start = start, slice_end = end,
          start_time = start div 1000\<rparr>)"

definition split_audio :: "int \<Rightarrow> int \<Rightarrow> audio_chunk list option" where
  "split_audio length_ms segment_duration =
     (if segment_duration = 0 then None
      else Some (map (make_chunk length_ms segment_duration)
                   [0 ..< nat (num_segments length_ms segment_duration)]))"

section \<open>Transcription loop\<close>







section \<open>Predicates used by the specification\<close>

text \<open>
  \<open>dropped st line\<close> is the disjunction of the conditions under which the loop body of
  \<^verbatim>\<open>format_srt\<close> reaches a \<^verbatim>\<open>continue\<close>; \<open>accept st t txt\<close> is the state after the rest of
  the body has run for a line with parsed timestamp \<open>t\<close> and text \<open>txt\<close>.
\<close>

definition dropped :: "srt_state \<Rightarrow> string \<Rightarrow> bool" where
  "dropped st line \<longleftrightarrow>
     strip line = [] \<or> CHR ''['' \<notin> set line
     \<or> \<not> is_valid_text (text_part line) (seen_texts st) (last_text st)
     \<or> (case parse_timestamp (timestamp_part line) of
           None \<Rightarrow> True
         | Some t \<Rightarrow> t \<in> seen_timestamps st)"

definition accept :: "srt_state \<Rightarrow> int \<Rightarrow> string \<Rightarrow> srt_state" where
  "accept st t txt =
     \<lparr>entries = entries st @
        [\<lparr>entry_index = current_entry st,
          start_seconds = max t (last_end_time st + 1),
          end_seconds = max t (last_end_time st + 1) + 3,
          entry_text = txt\<rparr>],
      seen_timestamps = insert (max t (last_end_time st + 1)) (seen_timestamps st),
      seen_texts = insert txt (seen_texts st),
      current_entry = current_entry st + 1,
      last_end_time = max t (last_end_time st + 1) + 3,
      last_text = txt\<rparr>"

text \<open>
  The invariant of the loop: the two sets, the counter and the two cursors are functions
  of the entries appended so far; and the properties every list of entries has.
\<close>

definition state_ok :: "srt_state \<Rightarrow> bool" where
  "state_ok st \<longleftrightarrow>
     seen_timestamps st = start_seconds ` set (entries st)
     \<and> seen_texts st = entry_text ` set (entries st)
     \<and> current_entry st = int (length (entries st)) + 1
     \<and> last_end_time st = (if entries st = [] then 0 else end_seconds (last (entries st)))
     \<and> last_text st = (if entries st = [] then [] else entry_text (last (entries st)))"

definition entries_ok :: "subtitle_entry list \<Rightarrow> bool" where
  "entries_ok es \<longleftrightarrow>
     (\<forall>e \<in> set es. end_seconds e = start_seconds e + 3 \<and> 1 \<le> start_seconds e)
     \<and> successively (\<lambda>a b. end_seconds a + 1 \<le> start_seconds b) es
     \<and> distinct (map entry_text es)
     \<and> map entry_index es = map int [1 ..< Suc (length es)]"



section \<open>The loop invariant\<close>

lemma srt_line_dropped: "dropped st line \<Longrightarrow> srt_line st line = st"
  by (auto simp: dropped_def srt_line_def Let_def split: option.splits)

lemma srt_line_accepted:
  assumes "\<not> dropped st line"
  shows "\<exists>t. parse_timestamp (timestamp_part line) = Some t \<and> t \<notin> seen_timestamps st
             \<and> srt_line st line = accept st t (text_part line)"
  using assms
  by (auto simp: dropped_def srt_line_def accept_def Let_def split: option.splits)

lemma srt_line_cases:
  "srt_line st line = st \<or>
   (\<exists>t. \<not> dropped st line \<and> parse_timestamp (timestamp_part line) = Some t
        \<and> srt_line st line = accept st t (text_part line))"
  using srt_line_dropped srt_line_accepted by blast

lemma entries_accept: "length (entries (accept st t txt)) = Suc (length (entries st))"
  by (simp add: accept_def)

lemma init_ok: "state_ok init_state" "entries_ok (entries init_state)"
  by (simp_all add: state_ok_def entries_ok_def init_state_def)

lemma accept_state_ok: "state_ok st \<Longrightarrow> state_ok (accept st t txt)"
  by (simp add: state_ok_def accept_def)

lemma last_end_nonneg:
  assumes "state_ok st" and "entries_ok (entries st)"
  shows "0 \<le> last_end_time st"
proof (cases "entries st = []")
  case True
  with assms show ?thesis by (simp add: state_ok_def)
next
  case False
  then have "last (entries st) \<in> set (entries st)" by simp
  with assms(2) have "1 \<le> start_seconds (last (entries st))"
    and "end_seconds (last (entries st)) = start_seconds (last (entries st)) + 3"
    by (auto simp: entries_ok_def)
  with assms(1) False show ?thesis by (simp add: state_ok_def)
qed

lemma accept_entries_ok:
  assumes ok: "state_ok st" and es: "entries_ok (entries st)"
    and new: "txt \<notin> seen_texts st"
  shows "entries_ok (entries (accept st t txt))"
proof -
  let ?es = "entries st"
  let ?e = "\<lparr>entry_index = current_entry st,
          start_seconds = max t (last_end_time st + 1),
          end_seconds = max t (last_end_time st + 1) + 3,
          entry_text = txt\<rparr>"
  have ent: "entries (accept st t txt) = ?es @ [?e]"
    by (simp add: accept_def)
  have le: "0 \<le> last_end_time st"
    using ok es by (rule last_end_nonneg)
  have a: "\<forall>e \<in> set (?es @ [?e]). end_seconds e = start_seconds e + 3 \<and> 1 \<le> start_seconds e"
    using es le by (auto simp: entries_ok_def)
  have b: "successively (\<lambda>a b. end_seconds a + 1 \<le> start_seconds b) (?es @ [?e])"
    using es ok by (auto simp: entries_ok_def state_ok_def successively_append_iff)
  have c: "distinct (map entry_text (?es @ [?e]))"
    using es ok new by (auto simp: entries_ok_def state_ok_def)
  have d: "map entry_index (?es @ [?e]) = map int [1 ..< Suc (length (?es @ [?e]))]"
    using es ok by (simp add: entries_ok_def state_ok_def)
  show ?thesis
    unfolding ent entries_ok_def using a b c d by blast
qed

lemma srt_line_ok:
  assumes "state_ok st" and "entries_ok (entries st)"
  shows "state_ok (srt_line st line) \<and> entries_ok (entries (srt_line st line))"
proof (cases "dropped st line")
  case True
  with assms show ?thesis by (simp add: srt_line_dropped)
next
  case False
  then obtain t where st': "srt_line st line = accept st t (text_part line)"
    using srt_line_accepted by blast
  from False have "text_part line \<notin> seen_texts st"
    by (auto simp: dropped_def is_valid_text_def split: if_splits)
  with assms show ?thesis
    by (simp add: st' accept_state_ok accept_entries_ok)
qed

lemma srt_lines_ok:
  "state_ok st \<Longrightarrow> entries_ok (entries st) \<Longrightarrow>
   state_ok (srt_lines st ls) \<and> entries_ok (entries (srt_lines st ls))"
  unfolding srt_lines_def
  by (induction ls arbitrary: st) (simp_all add: srt_line_ok)

lemma srt_entries_ok: "entries_ok (srt_entries txt)"
  unfolding srt_entries_def using srt_lines_ok [OF init_ok] by blast

lemma successively_nth:
  "successively P xs \<Longrightarrow> Suc i < length xs \<Longrightarrow> P (xs ! i) (xs ! Suc i)"
proof (induction P xs arbitrary: i rule: successively.induct)
  case (3 P x y xs)
  then show ?case by (cases i) auto
qed simp_all


lemma srt_lines_append: "srt_lines st (xs @ ys) = srt_lines (srt_lines st xs) ys"
  by (simp add: srt_lines_def)

lemma srt_lines_single: "srt_lines st [l] = srt_line st l"
  by (simp add: srt_lines_def)

lemma srt_lines_Cons: "srt_lines st (l # ls) = srt_lines (srt_line st l) ls"
  by (simp add: srt_lines_def)

lemma srt_lines_all_dropped: "\<forall>l \<in> set ls. dropped st l \<Longrightarrow> srt_lines st ls = st"
  by (induction ls) (simp_all add: srt_lines_def srt_line_dropped)

lemma srt_line_prefix: "\<exists>new. entries (srt_line st l) = entries st @ new"
  using srt_line_cases [of st l] by (auto simp: accept_def)

lemma srt_lines_prefix: "\<exists>new. entries (srt_lines st ls) = entries st @ new"
proof (induction ls arbitrary: st)
  case Nil
  show ?case by (simp add: srt_lines_def)
next
  case (Cons l ls)
  obtain n1 where n1: "entries (srt_line st l) = entries st @ n1"
    using srt_line_prefix by blast
  obtain n2 where "entries (srt_lines (srt_line st l) ls) = entries (srt_line st l) @ n2"
    using Cons.IH by blast
  with n1 show ?case by (simp add: srt_lines_Cons)
qed

lemma reachable_ok:
  "state_ok (srt_lines init_state pre)" "entries_ok (entries (srt_lines init_state pre))"
  using srt_lines_ok [OF init_ok] by blast+

section \<open>Properties of the normalizer output\<close>

lemma example_clamp:
  "srt_entries ''[00:10] A\<newline>[00:11] B'' =
     [\<lparr>entry_index = 1, start_seconds = 10, end_seconds = 13, entry_text = ''A''\<rparr>,
      \<lparr>entry_index = 2, start_seconds = 14, end_seconds = 17, entry_text = ''B''\<rparr>]"
  by code_simp

text \<open>
  Claim C2. In the output of one normalization pass (\<^verbatim>\<open>format_srt\<close> over any input text)
  every entry starts at least one second after the end of the entry before it, and every
  entry ends after it starts.
\<close>

theorem monotone_entries:
  "(\<forall>i. Suc i < length (srt_entries txt) \<longrightarrow>
        end_seconds (srt_entries txt ! i) + 1 \<le> start_seconds (srt_entries txt ! Suc i))
   \<and> (\<forall>e \<in> set (srt_entries txt). start_seconds e < end_seconds e)"
proof -
  have ok: "entries_ok (srt_entries txt)" by (rule srt_entries_ok)
  then have "successively (\<lambda>a b. end_seconds a + 1 \<le> start_seconds b) (srt_entries txt)"
    unfolding entries_ok_def by blast
  then have adj: "\<forall>i. Suc i < length (srt_entries txt) \<longrightarrow>
        end_seconds (srt_entries txt ! i) + 1 \<le> start_seconds (srt_entries txt ! Suc i)"
    using successively_nth by blast
  from ok have "\<forall>e \<in> set (srt_entries txt). start_seconds e < end_seconds e"
    by (auto simp: entries_ok_def)
  with adj show ?thesis by blast
qed

theorem monotone_entries_witness:
  "Suc 0 < length (srt_entries ''[00:10] A\<newline>[00:11] B'')
   \<and> end_seconds (srt_entries ''[00:10] A\<newline>[00:11] B'' ! 0) + 1
       \<le> start_seconds (srt_entries ''[00:10] A\<newline>[00:11] B'' ! Suc 0)
   \<and> srt_entries ''[00:10] A\<newline>[00:11] B'' ! 0 \<in> set (srt_entries ''[00:10] A\<newline>[00:11] B'')
   \<and> start_seconds (srt_entries ''[00:10] A\<newline>[00:11] B'' ! 0)
       < end_seconds (srt_entries ''[00:10] A\<newline>[00:11] B'' ! 0)"
proof -
  let ?es = "srt_entries ''[00:10] A\<newline>[00:11] B''"
  have len: "Suc 0 < length ?es" by (simp add: example_clamp)
  have mem: "?es ! 0 \<in> set ?es" by (simp add: example_clamp)
  from monotone_entries [of "''[00:10] A\<newline>[00:11] B''"] len mem
  show ?thesis by blast
qed

text \<open>
  Claim C5. Every subtitle entry lasts exactly three seconds: its end minus its start
  is 3, whatever the input.
\<close>

theorem fixed_duration:
  "\<forall>e \<in> set (srt_entries txt). end_seconds e - start_seconds e = 3"
  using srt_entries_ok [of "txt"] by (auto simp: entries_ok_def)

theorem fixed_duration_witness:
  "\<lparr>entry_index = 2, start_seconds = 14, end_seconds = 17, entry_text = ''B''\<rparr>
      \<in> set (srt_entries ''[00:10] A\<newline>[00:11] B'')
   \<and> end_seconds \<lparr>entry_index = 2, start_seconds = 14, end_seconds = 17, entry_text = ''B''\<rparr>
       - start_seconds \<lparr>entry_index = 2, start_seconds = 14, end_seconds = 17, entry_text = ''B''\<rparr> = 3"
proof -
  have mem: "\<lparr>entry_index = 2, start_seconds = 14, end_seconds = 17, entry_text = ''B''\<rparr>
      \<in> set (srt_entries ''[00:10] A\<newline>[00:11] B'')"
    by (simp add: example_clamp)
  from fixed_duration [of "''[00:10] A\<newline>[00:11] B''"] mem show ?thesis by blast
qed

lemma example_duplicate:
  "srt_entries ''[00:02] Hello there\<newline>[00:05] Hello there'' =
     [\<lparr>entry_index = 1, start_seconds = 2, end_seconds = 5, entry_text = ''Hello there''\<rparr>]"
  by code_simp

lemma seen_text_dropped: "txt \<in> seen_texts st \<Longrightarrow> text_part line = txt \<Longrightarrow> dropped st line"
  by (auto simp: dropped_def is_valid_text_def)

text \<open>
  Claim C8. Within one pass the texts of the entries are pairwise distinct: no two
  entries carry the same text, and once a text has an entry, a later line with that text
  (whatever its timestamp) changes nothing.
\<close>

theorem texts_distinct:
  "distinct (map entry_text (srt_entries txt))
   \<and> (\<forall>i j. i < j \<and> j < length (srt_entries txt) \<longrightarrow>
          entry_text (srt_entries txt ! i) \<noteq> entry_text (srt_entries txt ! j))
   \<and> (\<forall>e \<in> set (entries (srt_lines init_state pre)).
          text_part line = entry_text e \<longrightarrow>
          srt_lines init_state (pre @ [line]) = srt_lines init_state pre)"
proof -
  have d: "distinct (map entry_text (srt_entries txt))"
    using srt_entries_ok [of "txt"] unfolding entries_ok_def by blast
  have n: "\<forall>i j. i < j \<and> j < length (srt_entries txt) \<longrightarrow>
          entry_text (srt_entries txt ! i) \<noteq> entry_text (srt_entries txt ! j)"
  proof (intro allI impI)
    fix i j
    assume ij: "i < j \<and> j < length (srt_entries txt)"
    with d show "entry_text (srt_entries txt ! i) \<noteq> entry_text (srt_entries txt ! j)"
      by (auto simp: distinct_conv_nth)
  qed
  have s: "\<forall>e \<in> set (entries (srt_lines init_state pre)).
          text_part line = entry_text e \<longrightarrow>
          srt_lines init_state (pre @ [line]) = srt_lines init_state pre"
  proof (intro ballI impI)
    fix e
    assume e: "e \<in> set (entries (srt_lines init_state pre))"
      and eq: "text_part line = entry_text e"
    have "seen_texts (srt_lines init_state pre) = entry_text ` set (entries (srt_lines init_state pre))"
      using reachable_ok(1) [of pre] by (simp add: state_ok_def)
    with e have "entry_text e \<in> seen_texts (srt_lines init_state pre)" by blast
    then have "dropped (srt_lines init_state pre) line"
      using eq by (simp add: seen_text_dropped)
    then show "srt_lines init_state (pre @ [line]) = srt_lines init_state pre"
      by (simp add: srt_lines_append srt_lines_single srt_line_dropped)
  qed
  from d n s show ?thesis by blast
qed

lemma example_first_hello:
  "entries (srt_lines init_state [''[00:02] Hello there'']) =
     [\<lparr>entry_index = 1, start_seconds = 2, end_seconds = 5, entry_text = ''Hello there''\<rparr>]"
  by code_simp

lemma example_text_part: "text_part ''[00:05] Hello there'' = ''Hello there''"
  by code_simp

theorem texts_distinct_witness:
  "\<lparr>entry_index = 1, start_seconds = 2, end_seconds = 5, entry_text = ''Hello there''\<rparr>
      \<in> set (entries (srt_lines init_state [''[00:02] Hello there'']))
   \<and> text_part ''[00:05] Hello there''
       = entry_text \<lparr>entry_index = 1, start_seconds = 2, end_seconds = 5, entry_text = ''Hello there''\<rparr>
   \<and> srt_lines init_state ([''[00:02] Hello there''] @ [''[00:05] Hello there''])
       = srt_lines init_state [''[00:02] Hello there'']
   \<and> distinct (map entry_text (srt_entries ''[00:02] Hello there\<newline>[00:05] Hello there''))"
proof -
  let ?e = "\<lparr>entry_index = 1, start_seconds = 2, end_seconds = 5, entry_text = ''Hello there''\<rparr>"
  have mem: "?e \<in> set (entries (srt_lines init_state [''[00:02] Hello there'']))"
    by (simp add: example_first_hello)
  have eq: "text_part ''[00:05] Hello there'' = entry_text ?e"
    by (simp add: example_text_part)
  from texts_distinct [of "''[00:02] Hello there\<newline>[00:05] Hello there''"
      "[''[00:02] Hello there'']" "''[00:05] Hello there''"] mem eq
  show ?thesis by blast
qed

text \<open>
  Claim C10. The previous-end cursor starts at 0, so the first accepted line, reporting
  timestamp \<open>t\<close>, yields the entry with index 1 starting at \<open>max t 1\<close> (at 1 when it reports
  0); and every entry starts at second 1 or later.
\<close>

theorem start_at_least_one:
  "last_end_time init_state = 0
   \<and> ((\<forall>l \<in> set pre. dropped init_state l) \<and> \<not> dropped init_state line
        \<and> parse_timestamp (timestamp_part line) = Some t \<longrightarrow>
        (\<exists>more. entries (srt_lines init_state (pre @ line # rest)) =
           \<lparr>entry_index = 1, start_seconds = max t 1, end_seconds = max t 1 + 3,
            entry_text = text_part line\<rparr> # more))
   \<and> (\<forall>e \<in> set (srt_entries txt). 1 \<le> start_seconds e)"
proof -
  have a: "last_end_time init_state = 0" by (simp add: init_state_def)
  have b: "\<exists>more. entries (srt_lines init_state (pre @ line # rest)) =
           \<lparr>entry_index = 1, start_seconds = max t 1, end_seconds = max t 1 + 3,
            entry_text = text_part line\<rparr> # more"
    if pre: "\<forall>l \<in> set pre. dropped init_state l" and acc: "\<not> dropped init_state line"
      and ts: "parse_timestamp (timestamp_part line) = Some t"
  proof -
    have "srt_lines init_state pre = init_state"
      using pre by (rule srt_lines_all_dropped)
    then have run: "srt_lines init_state (pre @ line # rest)
        = srt_lines (srt_line init_state line) rest"
      by (simp add: srt_lines_append srt_lines_Cons)
    from acc ts have "srt_line init_state line = accept init_state t (text_part line)"
      using srt_line_accepted [of init_state line] by auto
    then have "entries (srt_line init_state line) =
        [\<lparr>entry_index = 1, start_seconds = max t 1, end_seconds = max t 1 + 3,
            entry_text = text_part line\<rparr>]"
      by (simp add: accept_def init_state_def)
    with srt_lines_prefix [of "srt_line init_state line" rest] run
    show ?thesis by auto
  qed
  have c: "\<forall>e \<in> set (srt_entries txt). 1 \<le> start_seconds e"
    using srt_entries_ok [of "txt"] unfolding entries_ok_def by blast
  from a b c show ?thesis by blast
qed

lemma example_zero_dropped: "dropped init_state ''no timestamp here''"
  by code_simp

lemma example_zero_accepted: "\<not> dropped init_state ''[00:00] Good evening''"
  by code_simp

lemma example_zero_parse: "parse_timestamp (timestamp_part ''[00:00] Good evening'') = Some 0"
  by code_simp

lemma example_zero_entries:
  "srt_entries ''no timestamp here\<newline>[00:00] Good evening\<newline>[00:03] and welcome'' =
     [\<lparr>entry_index = 1, start_seconds = 1, end_seconds = 4, entry_text = ''Good evening''\<rparr>,
      \<lparr>entry_index = 2, start_seconds = 5, end_seconds = 8, entry_text = ''and welcome''\<rparr>]"
  by code_simp

theorem start_at_least_one_witness:
  "dropped init_state ''no timestamp here''
   \<and> \<not> dropped init_state ''[00:00] Good evening''
   \<and> parse_timestamp (timestamp_part ''[00:00] Good evening'') = Some 0
   \<and> (\<exists>more. entries (srt_lines init_state
          ([''no timestamp here''] @ ''[00:00] Good evening'' # [''[00:03] and welcome''])) =
        \<lparr>entry_index = 1, start_seconds = 1, end_seconds = 4,
         entry_text = text_part ''[00:00] Good evening''\<rparr> # more)
   \<and> \<lparr>entry_index = 1, start_seconds = 1, end_seconds = 4, entry_text = ''Good evening''\<rparr>
        \<in> set (srt_entries ''no timestamp here\<newline>[00:00] Good evening\<newline>[00:03] and welcome'')
   \<and> 1 \<le> start_seconds
        \<lparr>entry_index = 1, start_seconds = 1, end_seconds = 4, entry_text = ''Good evening''\<rparr>"
proof -
  have pre: "\<forall>l \<in> set [''no timestamp here'']. dropped init_state l"
    by (simp add: example_zero_dropped)
  have mem: "\<lparr>entry_index = 1, start_seconds = 1, end_seconds = 4, entry_text = ''Good evening''\<rparr>
        \<in> set (srt_entries ''no timestamp here\<newline>[00:00] Good evening\<newline>[00:03] and welcome'')"
    by (simp add: example_zero_entries)
  from start_at_least_one [of "[''no timestamp here'']" "''[00:00] Good evening''" 0
      "[''[00:03] and welcome'']"
      "''no timestamp here\<newline>[00:00] Good evening\<newline>[00:03] and welcome''"]
    pre example_zero_dropped example_zero_accepted example_zero_parse mem
  show ?thesis by simp
qed

text \<open>
  Claim C3. In a state reached during a pass, a line whose reported timestamp \<open>t\<close> is
  the start time of an entry made earlier in the pass is dropped and leaves the state as
  it is, also when its text is new and valid; a line whose timestamp is no such start time
  and that passes the other checks gets an entry.
\<close>

theorem duplicate_start_guard:
  assumes "st = srt_lines init_state pre"
    and "parse_timestamp (timestamp_part line) = Some t"
  shows "(t \<in> start_seconds ` set (entries st) \<longrightarrow> srt_line st line = st)
    \<and> (t \<notin> start_seconds ` set (entries st) \<and> strip line \<noteq> [] \<and> CHR ''['' \<in> set line
         \<and> is_valid_text (text_part line) (seen_texts st) (last_text st) \<longrightarrow>
         entries (srt_line st line) = entries st @
           [\<lparr>entry_index = int (length (entries st)) + 1,
             start_seconds = max t (last_end_time st + 1),
             end_seconds = max t (last_end_time st + 1) + 3,
             entry_text = text_part line\<rparr>])"
proof -
  have ok: "state_ok st"
    using assms(1) reachable_ok(1) by simp
  then have seen: "seen_timestamps st = start_seconds ` set (entries st)"
    and cur: "current_entry st = int (length (entries st)) + 1"
    by (simp_all add: state_ok_def)
  have a: "srt_line st line = st" if "t \<in> start_seconds ` set (entries st)"
  proof -
    from that seen assms(2) have "dropped st line"
      by (simp add: dropped_def)
    then show ?thesis by (rule srt_line_dropped)
  qed
  have b: "entries (srt_line st line) = entries st @
           [\<lparr>entry_index = int (length (entries st)) + 1,
             start_seconds = max t (last_end_time st + 1),
             end_seconds = max t (last_end_time st + 1) + 3,
             entry_text = text_part line\<rparr>]"
    if "t \<notin> start_seconds ` set (entries st)" and "strip line \<noteq> []"
      and "CHR ''['' \<in> set line"
      and "is_valid_text (text_part line) (seen_texts st) (last_text st)"
  proof -
    from that seen assms(2) have "\<not> dropped st line"
      by (simp add: dropped_def)
    with assms(2) have "srt_line st line = accept st t (text_part line)"
      using srt_line_accepted [of st line] by auto
    then show ?thesis by (simp add: accept_def cur)
  qed
  from a b show ?thesis by blast
qed

lemma example_guard_state:
  "entries (srt_lines init_state [''[00:10] A'', ''[00:11] B'']) =
     [\<lparr>entry_index = 1, start_seconds = 10, end_seconds = 13, entry_text = ''A''\<rparr>,
      \<lparr>entry_index = 2, start_seconds = 14, end_seconds = 17, entry_text = ''B''\<rparr>]"
  by code_simp

lemma example_guard_parse:
  "parse_timestamp (timestamp_part ''[00:14] C'') = Some 14"
  "parse_timestamp (timestamp_part ''[00:11] D'') = Some 11"
  by code_simp+

lemma example_guard_valid:
  "is_valid_text (text_part ''[00:14] C'')
     (seen_texts (srt_lines init_state [''[00:10] A'', ''[00:11] B'']))
     (last_text (srt_lines init_state [''[00:10] A'', ''[00:11] B'']))"
  "is_valid_text (text_part ''[00:11] D'')
     (seen_texts (srt_lines init_state [''[00:10] A'', ''[00:11] B'']))
     (last_text (srt_lines init_state [''[00:10] A'', ''[00:11] B'']))"
  "strip ''[00:11] D'' \<noteq> []" "CHR ''['' \<in> set ''[00:11] D''"
  "text_part ''[00:11] D'' = ''D''"
  "last_end_time (srt_lines init_state [''[00:10] A'', ''[00:11] B'']) = 17"
  by code_simp+

theorem duplicate_start_guard_witness:
  "parse_timestamp (timestamp_part ''[00:14] C'') = Some 14
   \<and> 14 \<in> start_seconds ` set (entries (srt_lines init_state [''[00:10] A'', ''[00:11] B'']))
   \<and> is_valid_text (text_part ''[00:14] C'')
        (seen_texts (srt_lines init_state [''[00:10] A'', ''[00:11] B'']))
        (last_text (srt_lines init_state [''[00:10] A'', ''[00:11] B'']))
   \<and> srt_line (srt_lines init_state [''[00:10] A'', ''[00:11] B'']) ''[00:14] C''
        = srt_lines init_state [''[00:10] A'', ''[00:11] B'']
   \<and> parse_timestamp (timestamp_part ''[00:11] D'') = Some 11
   \<and> 11 \<notin> start_seconds ` set (entries (srt_lines init_state [''[00:10] A'', ''[00:11] B'']))
   \<and> entries (srt_line (srt_lines init_state [''[00:10] A'', ''[00:11] B'']) ''[00:11] D'')
        = entries (srt_lines init_state [''[00:10] A'', ''[00:11] B'']) @
            [\<lparr>entry_index = 3, start_seconds = 18, end_seconds = 21, entry_text = ''D''\<rparr>]"
proof -
  let ?st = "srt_lines init_state [''[00:10] A'', ''[00:11] B'']"
  have used: "14 \<in> start_seconds ` set (entries ?st)"
    by (simp add: example_guard_state)
  have fresh: "11 \<notin> start_seconds ` set (entries ?st)"
    by (simp add: example_guard_state)
  have len: "int (length (entries ?st)) + 1 = 3"
    by (simp add: example_guard_state)
  from duplicate_start_guard [OF refl example_guard_parse(1)] used
  have dup: "srt_line ?st ''[00:14] C'' = ?st" by blast
  from duplicate_start_guard [OF refl example_guard_parse(2)] fresh example_guard_valid(2-4)
  have "entries (srt_line ?st ''[00:11] D'') = entries ?st @
           [\<lparr>entry_index = int (length (entries ?st)) + 1,
             start_seconds = max 11 (last_end_time ?st + 1),
             end_seconds = max 11 (last_end_time ?st + 1) + 3,
             entry_text = text_part ''[00:11] D''\<rparr>]"
    by blast
  then have acc: "entries (srt_line ?st ''[00:11] D'') = entries ?st @
            [\<lparr>entry_index = 3, start_seconds = 18, end_seconds = 21, entry_text = ''D''\<rparr>]"
    by (simp add: len example_guard_valid(5,6))
  from dup acc used fresh example_guard_parse example_guard_valid(1)
  show ?thesis by blast
qed

text \<open>
  Claim C9. A line that reaches any \<^verbatim>\<open>continue\<close> leaves the whole state (entries, both
  sets, counter, both cursors) unchanged; a line either leaves the state unchanged or adds
  exactly one entry; and lines rejected in a state can be deleted from the input without
  changing the result, so a text seen only on rejected lines is judged later as if new.
\<close>

theorem rejection_atomic:
  "(dropped st line \<longrightarrow> srt_line st line = st)
   \<and> (length (entries (srt_line st line)) = length (entries st) \<longrightarrow> srt_line st line = st)
   \<and> (\<not> dropped st line \<longrightarrow> length (entries (srt_line st line)) = Suc (length (entries st)))
   \<and> ((\<forall>l \<in> set rejected. dropped st l) \<longrightarrow>
        srt_lines st (rejected @ rest) = srt_lines st rest)"
proof -
  have a: "dropped st line \<longrightarrow> srt_line st line = st"
    by (simp add: srt_line_dropped)
  have c: "\<not> dropped st line \<longrightarrow> length (entries (srt_line st line)) = Suc (length (entries st))"
    using srt_line_accepted [of st line] by (auto simp: entries_accept)
  have b: "length (entries (srt_line st line)) = length (entries st) \<longrightarrow> srt_line st line = st"
    using a c by (cases "dropped st line") auto
  have d: "(\<forall>l \<in> set rejected. dropped st l) \<longrightarrow>
        srt_lines st (rejected @ rest) = srt_lines st rest"
    by (simp add: srt_lines_append srt_lines_all_dropped)
  from a b c d show ?thesis by blast
qed

lemma example_rejected: "dropped init_state ''[xx] Hello world''"
  by code_simp

lemma example_later_accepted:
  "entries (srt_lines init_state [''[00:05] Hello world'']) =
     [\<lparr>entry_index = 1, start_seconds = 5, end_seconds = 8, entry_text = ''Hello world''\<rparr>]"
  by code_simp

theorem rejection_atomic_witness:
  "dropped init_state ''[xx] Hello world''
   \<and> srt_line init_state ''[xx] Hello world'' = init_state
   \<and> entries (srt_lines init_state ([''[xx] Hello world''] @ [''[00:05] Hello world''])) =
       [\<lparr>entry_index = 1, start_seconds = 5, end_seconds = 8, entry_text = ''Hello world''\<rparr>]"
proof -
  have all: "\<forall>l \<in> set [''[xx] Hello world'']. dropped init_state l"
    by (simp add: example_rejected)
  from rejection_atomic [of init_state "''[xx] Hello world''" "[''[xx] Hello world'']"
      "[''[00:05] Hello world'']"] example_rejected all
  have "srt_line init_state ''[xx] Hello world'' = init_state"
    and "srt_lines init_state ([''[xx] Hello world''] @ [''[00:05] Hello world''])
         = srt_lines init_state [''[00:05] Hello world'']"
    by blast+
  with example_rejected all example_later_accepted show ?thesis by simp
qed


section \<open>The line parser\<close>

lemma set_strip_by: "set (strip_by p s) \<subseteq> set s"
proof -
  have "set (dropWhile p (rev (dropWhile p s))) \<subseteq> set (rev (dropWhile p s))"
    by (rule set_dropWhileD [THEN subsetI])
  also have "\<dots> \<subseteq> set s"
    using set_dropWhileD by fastforce
  finally show ?thesis by (simp add: strip_by_def)
qed

lemma set_split_on: "w \<in> set (split_on sep s) \<Longrightarrow> set w \<subseteq> set s"
proof (induction s arbitrary: w)
  case Nil
  then show ?case by simp
next
  case (Cons c cs)
  show ?case
  proof (cases "c = sep")
    case True
    with Cons show ?thesis by auto
  next
    case False
    show ?thesis
    proof (cases "split_on sep cs")
      case Nil
      with Cons.prems False show ?thesis by auto
    next
      case (Cons v vs)
      with Cons.prems False have "w = c # v \<or> w \<in> set vs" by auto
      then show ?thesis
      proof
        assume "w = c # v"
        moreover have "set v \<subseteq> set cs" using Cons.IH [of v] Cons by simp
        ultimately show ?thesis by auto
      next
        assume "w \<in> set vs"
        then have "set w \<subseteq> set cs" using Cons.IH [of w] Cons by simp
        then show ?thesis by auto
      qed
    qed
  qed
qed

lemma py_int_nonneg:
  assumes "py_int s = Some v" and "CHR ''-'' \<notin> set s"
  shows "0 \<le> v"
proof -
  have sub: "set (strip_by int_space s) \<subseteq> set s"
    by (rule set_strip_by)
  obtain c cs where cs: "strip_by int_space s = c # cs"
    using assms(1) by (cases "strip_by int_space s") (auto simp: py_int_def)
  with sub assms(2) have "c \<noteq> CHR ''-''" by auto
  with assms(1) cs show ?thesis
    by (auto simp: py_int_def split: if_splits)
qed

lemma example_separator_not_skipped:
  "py_int ([CHR 0x1C] @ ''1'') = None"
  "strip ([CHR 0x1C] @ ''1'') = ''1''"
  "parse_timestamp (''['' @ [CHR 0x1C] @ ''1:05]'') = None"
  "dropped init_state (''['' @ [CHR 0x1C] @ ''1:05] hi'')"
  "srt_entries (''['' @ [CHR 0x1C] @ ''1:05] hi'') = []"
  "py_int ([CHR 0xA0] @ '' +1_0 '' @ [CHR 0x85]) = Some 10"
  by code_simp+

lemma int_digits_limit:
  "max_str_digits < length (filter (\<lambda>c. c \<noteq> CHR ''_'') ds) \<Longrightarrow> int_digits ds = None"
  by (simp add: int_digits_def)

text \<open>
  Claim C4, as amended. Whenever \<^verbatim>\<open>parse_timestamp\<close> accepts a token, the token has
  exactly two fields that \<^verbatim>\<open>int\<close> reads, and the value is minutes times 60 plus seconds.
  \<^verbatim>\<open>int\<close> reads a sign, so the value is a non-negative integer for every token that has no
  minus sign, and can be negative otherwise.
\<close>

theorem parse_timestamp_value:
  assumes "parse_timestamp s = Some v"
  shows "(\<exists>a b mm ss. split_on (CHR '':'') (strip_chars ''[]'' s) = [a, b]
            \<and> py_int a = Some mm \<and> py_int b = Some ss \<and> v = mm * 60 + ss)
         \<and> (CHR ''-'' \<notin> set s \<longrightarrow> 0 \<le> v)"
proof -
  from assms obtain a b mm ss where
    parts: "split_on (CHR '':'') (strip_chars ''[]'' s) = [a, b]"
    and mm: "py_int a = Some mm" and ss: "py_int b = Some ss" and v: "v = mm * 60 + ss"
    by (auto simp: parse_timestamp_def split: list.splits option.splits)
  have "0 \<le> v" if nominus: "CHR ''-'' \<notin> set s"
  proof -
    have "set (strip_chars ''[]'' s) \<subseteq> set s"
      unfolding strip_chars_def by (rule set_strip_by)
    moreover have "set a \<subseteq> set (strip_chars ''[]'' s)" "set b \<subseteq> set (strip_chars ''[]'' s)"
      using set_split_on [of _ "CHR '':''" "strip_chars ''[]'' s"] parts by simp_all
    ultimately have "CHR ''-'' \<notin> set a" "CHR ''-'' \<notin> set b"
      using nominus by auto
    with mm ss have "0 \<le> mm" "0 \<le> ss"
      by (auto dest: py_int_nonneg)
    with v show ?thesis by simp
  qed
  with parts mm ss v show ?thesis by blast
qed

lemma example_parse: "parse_timestamp ''[02:05]'' = Some 125"
  by code_simp

theorem parse_timestamp_value_witness:
  "parse_timestamp ''[02:05]'' = Some 125 \<and> CHR ''-'' \<notin> set ''[02:05]'' \<and> (0::int) \<le> 125"
  using parse_timestamp_value [OF example_parse] example_parse by simp

text \<open>
  The line \<^verbatim>\<open>[-1:00] hello\<close> has the timestamp token \<^verbatim>\<open>[-1:00]\<close>, which parses to \<open>-60\<close>.
\<close>

theorem parse_timestamp_negative:
  "timestamp_part ''[-1:00] hello'' = ''[-1:00]''
   \<and> parse_timestamp ''[-1:00]'' = Some (- 60) \<and> \<not> (0::int) \<le> - 60"
  by code_simp

section \<open>The hallucination filter\<close>

lemma split_ws_from_no_space:
  "\<forall>c \<in> set cur. \<not> isspace c \<Longrightarrow> w \<in> set (split_ws_from cur s) \<Longrightarrow> \<forall>c \<in> set w. \<not> isspace c"
proof (induction s arbitrary: cur)
  case Nil
  then show ?case by (auto split: if_splits)
next
  case (Cons d s)
  show ?case
  proof (cases "isspace d")
    case True
    with Cons.prems have "w = rev cur \<or> w \<in> set (split_ws_from [] s)"
      by (auto split: if_splits)
    then show ?thesis
    proof
      assume "w = rev cur"
      with Cons.prems(1) show ?thesis by simp
    next
      assume "w \<in> set (split_ws_from [] s)"
      then show ?thesis using Cons.IH [of "[]"] by simp
    qed
  next
    case False
    with Cons.prems have "w \<in> set (split_ws_from (d # cur) s)" by simp
    moreover from False Cons.prems(1) have "\<forall>c \<in> set (d # cur). \<not> isspace c" by simp
    ultimately show ?thesis using Cons.IH [of "d # cur"] by blast
  qed
qed

lemma split_ws_no_blank: "w \<in> set (split_ws s) \<Longrightarrow> CHR '' '' \<notin> set w"
proof -
  assume "w \<in> set (split_ws s)"
  then have "\<forall>c \<in> set w. \<not> isspace c"
    unfolding split_ws_def using split_ws_from_no_space [of "[]" w s] by simp
  moreover have "isspace CHR '' ''" by (simp add: isspace_def)
  ultimately show ?thesis by blast
qed

lemma blank_split_unique:
  "CHR '' '' \<notin> set a \<Longrightarrow> CHR '' '' \<notin> set a' \<Longrightarrow> a @ CHR '' '' # b = a' @ CHR '' '' # b'
   \<Longrightarrow> a = a' \<and> b = b'"
proof (induction a arbitrary: a')
  case Nil
  then show ?case by (cases a') auto
next
  case (Cons x xs)
  then show ?case by (cases a') auto
qed

lemma window_nth: "Suc i < length ws \<Longrightarrow> take 2 (drop i ws) = [ws ! i, ws ! Suc i]"
proof -
  assume a: "Suc i < length ws"
  then have "drop i ws = ws ! i # drop (Suc i) ws" by (simp add: Cons_nth_drop_Suc)
  moreover from a have "drop (Suc i) ws = ws ! Suc i # drop (Suc (Suc i)) ws"
    by (simp add: Cons_nth_drop_Suc)
  ultimately show ?thesis by (simp add: numeral_2_eq_2)
qed

lemma bigram_check_subsumed:
  assumes len: "4 < length (split_ws txt)"
    and one: "card (set (word_pairs (split_ws txt))) = 1"
  shows "card (set (split_ws txt)) = 1"
proof -
  let ?ws = "split_ws txt"
  from one obtain p where p: "set (word_pairs ?ws) = {p}"
    by (auto simp: card_1_singleton_iff)
  have pair: "?ws ! i @ CHR '' '' # ?ws ! Suc i = p" if "Suc i < length ?ws" for i
  proof -
    from that have "i < length ?ws - 1" by simp
    then have "join '' '' (take 2 (drop i ?ws)) \<in> set (word_pairs ?ws)"
      by (auto simp: word_pairs_def)
    with p that show ?thesis by (simp add: window_nth)
  qed
  have nb: "CHR '' '' \<notin> set (?ws ! i)" if "i < length ?ws" for i
    using that split_ws_no_blank [of "?ws ! i" "txt"] by simp
  have same: "?ws ! i = ?ws ! 0 \<and> ?ws ! Suc i = ?ws ! 1" if "Suc i < length ?ws" for i
  proof -
    have "?ws ! i @ CHR '' '' # ?ws ! Suc i = ?ws ! 0 @ CHR '' '' # ?ws ! Suc 0"
      using pair [OF that] pair [of 0] len by auto
    moreover have "CHR '' '' \<notin> set (?ws ! i)" using nb [of i] that by simp
    moreover have "CHR '' '' \<notin> set (?ws ! 0)"
    proof (rule nb)
      from len show "0 < length ?ws" by linarith
    qed
    ultimately show ?thesis
      using blank_split_unique [of "?ws ! i" "?ws ! 0" "?ws ! Suc i" "?ws ! Suc 0"]
      by simp
  qed
  have "Suc 1 < length ?ws" using len by linarith
  then have w1: "?ws ! 1 = ?ws ! 0" using same [of 1] by simp
  have all: "?ws ! i = ?ws ! 0" if "i < length ?ws" for i
  proof (cases i)
    case 0
    then show ?thesis by simp
  next
    case (Suc k)
    with that same [of k] w1 show ?thesis by simp
  qed
  have "set ?ws = {?ws ! 0}"
  proof
    show "set ?ws \<subseteq> {?ws ! 0}" using all by (auto simp: in_set_conv_nth)
    have "0 < length ?ws" using len by linarith
    then show "{?ws ! 0} \<subseteq> set ?ws" by simp
  qed
  then show ?thesis by simp
qed

text \<open>
  Claim C1. The text \<^verbatim>\<open>foo bar foo bar foo bar\<close> has six words and repeats a 2-word cycle
  over the whole line. Its sliding windows alternate between \<^verbatim>\<open>foo bar\<close> and \<^verbatim>\<open>bar foo\<close>,
  so the check on \<^verbatim>\<open>word_pairs\<close> does not fire: \<^verbatim>\<open>detect_repetition_pattern\<close> returns false,
  \<^verbatim>\<open>is_valid_text\<close> returns true and the line gets a subtitle entry.
\<close>

theorem bigram_cycle_not_rejected:
  "split_ws ''foo bar foo bar foo bar'' = [''foo'', ''bar'', ''foo'', ''bar'', ''foo'', ''bar'']
   \<and> word_pairs (split_ws ''foo bar foo bar foo bar'')
       = [''foo bar'', ''bar foo'', ''foo bar'', ''bar foo'', ''foo bar'']
   \<and> detect_repetition_pattern ''foo bar foo bar foo bar'' = False
   \<and> is_valid_text ''foo bar foo bar foo bar'' {} [] = True
   \<and> srt_entries ''[00:07] foo bar foo bar foo bar''
       = [\<lparr>entry_index = 1, start_seconds = 7, end_seconds = 10,
            entry_text = ''foo bar foo bar foo bar''\<rparr>]"
  by code_simp

text \<open>
  Read to the letter, the condition "all consecutive 2-word windows are identical" does
  lead to rejection (\<open>identical_windows_rejected\<close>). But windows that overlap are all
  identical only when all words are, so the check on \<^verbatim>\<open>word_pairs\<close> never fires unless the
  check before it (all words identical) has fired already (\<open>bigram_check_subsumed\<close>).
\<close>

lemma card_set_all_equal:
  assumes "xs \<noteq> []" and "\<forall>x \<in> set xs. x = hd xs"
  shows "card (set xs) = 1"
proof -
  from assms have "set xs = {hd xs}" by (cases xs) auto
  then show ?thesis by simp
qed

lemma identical_windows_rejected:
  assumes len: "5 \<le> length (split_ws txt)"
    and same: "\<forall>i j. i < length (split_ws txt) - 1 \<and> j < length (split_ws txt) - 1 \<longrightarrow>
                 take 2 (drop i (split_ws txt)) = take 2 (drop j (split_ws txt))"
  shows "detect_repetition_pattern txt" and "\<not> is_valid_text txt seen prev"
proof -
  let ?ws = "split_ws txt"
  have ne: "word_pairs ?ws \<noteq> []"
    using len by (simp add: word_pairs_def)
  have "\<forall>x \<in> set (word_pairs ?ws). x = hd (word_pairs ?ws)"
  proof
    fix x assume "x \<in> set (word_pairs ?ws)"
    then obtain i where i: "i < length ?ws - 1" and x: "x = join '' '' (take 2 (drop i ?ws))"
      by (auto simp: word_pairs_def)
    have "0 < length ?ws - 1" using len by simp
    then have "hd (word_pairs ?ws) = join '' '' (take 2 (drop 0 ?ws))"
      by (simp add: word_pairs_def hd_map upt_conv_Cons)
    moreover from same i \<open>0 < length ?ws - 1\<close>
    have "take 2 (drop i ?ws) = take 2 (drop 0 ?ws)" by blast
    ultimately show "x = hd (word_pairs ?ws)" using x by simp
  qed
  with ne have "card (set (word_pairs ?ws)) = 1" by (rule card_set_all_equal)
  with len show "detect_repetition_pattern txt"
    by (simp add: detect_repetition_pattern_def Let_def)
  then show "\<not> is_valid_text txt seen prev"
    by (simp add: is_valid_text_def)
qed

section \<open>The segmenter\<close>

lemma num_segments_bounds:
  assumes "0 < S"
  shows "(num_segments D S - 1) * S < D" and "D \<le> num_segments D S * S"
proof -
  define q where "q = (- D) div S"
  define r where "r = (- D) mod S"
  have eq: "- D = q * S + r" by (simp add: q_def r_def)
  have r: "0 \<le> r" "r < S" using assms by (simp_all add: r_def)
  have n: "num_segments D S = - q" by (simp add: num_segments_def q_def)
  from eq have "D = (- q) * S - r" by simp
  with r show "(num_segments D S - 1) * S < D" and "D \<le> num_segments D S * S"
    unfolding n by (simp_all add: algebra_simps)
qed

lemma num_segments_ceiling:
  "num_segments D S = \<lceil>real_of_int D / real_of_int S\<rceil>"
  by (simp add: num_segments_def ceiling_divide_eq_div)

lemma chunk_bounds:
  assumes S: "0 < S" and i: "int i < num_segments D S"
  shows "int i * S < D"
    and "min ((int i + 1) * S) D =
           (if int (Suc i) < num_segments D S then int (Suc i) * S else D)"
proof -
  from i have "int i \<le> num_segments D S - 1" by simp
  with S have "int i * S \<le> (num_segments D S - 1) * S"
    by (intro mult_right_mono) simp_all
  with num_segments_bounds(1) [OF S, of D] show "int i * S < D" by simp
  show "min ((int i + 1) * S) D =
           (if int (Suc i) < num_segments D S then int (Suc i) * S else D)"
  proof (cases "int (Suc i) < num_segments D S")
    case True
    then have "int (Suc i) \<le> num_segments D S - 1" by simp
    with S have "int (Suc i) * S \<le> (num_segments D S - 1) * S"
      by (intro mult_right_mono) simp_all
    with num_segments_bounds(1) [OF S, of D] have "int (Suc i) * S < D" by simp
    with True show ?thesis by (simp add: algebra_simps)
  next
    case False
    with i have "num_segments D S = int i + 1" by simp
    with num_segments_bounds(2) [OF S, of D] have "D \<le> (int i + 1) * S" by simp
    with False show ?thesis by simp
  qed
qed

text \<open>
  Claim C7. For an audio of \<open>D\<close> milliseconds and a segment size of \<open>S\<close> milliseconds (both
  below \<open>2^53\<close>, where the floating-point quotient of the source has the exact ceiling),
  \<^verbatim>\<open>split_audio\<close> makes \<open>ceil(D/S)\<close> chunks; chunk \<open>i\<close> starts at \<open>i * S\<close>, is not empty and
  not longer than \<open>S\<close>, and ends where the next one starts, the last one at \<open>D\<close>: the
  slices cover \<open>[0, D)\<close> with no gap and no overlap. The recorded start in seconds is the
  start in milliseconds divided by 1000, rounded down.
\<close>

theorem split_audio_cover:
  assumes "0 \<le> D" and "D < 2 ^ 53" and "0 < S" and "S < 2 ^ 53"
  shows "\<exists>cs. split_audio D S = Some cs
     \<and> int (length cs) = \<lceil>real_of_int D / real_of_int S\<rceil>
     \<and> (\<forall>i < length cs.
           chunk_no (cs ! i) = i
           \<and> slice_start (cs ! i) = int i * S
           \<and> slice_start (cs ! i) < slice_end (cs ! i)
           \<and> slice_end (cs ! i) \<le> slice_start (cs ! i) + S
           \<and> slice_end (cs ! i) = (if Suc i < length cs then slice_start (cs ! Suc i) else D)
           \<and> start_time (cs ! i) = slice_start (cs ! i) div 1000
           \<and> start_time (cs ! i) * 1000 \<le> slice_start (cs ! i)
           \<and> slice_start (cs ! i) < start_time (cs ! i) * 1000 + 1000)"
proof -
  let ?n = "nat (num_segments D S)"
  let ?cs = "map (make_chunk D S) [0 ..< ?n]"
  have sa: "split_audio D S = Some ?cs"
    using assms(3) by (simp add: split_audio_def)
  have nonneg: "0 \<le> num_segments D S"
  proof (rule ccontr)
    assume "\<not> 0 \<le> num_segments D S"
    then have "num_segments D S \<le> - 1" by simp
    with assms(3) have "num_segments D S * S \<le> (- 1) * S"
      by (intro mult_right_mono) simp_all
    with num_segments_bounds(2) [OF assms(3), of D] assms(1,3) show False by simp
  qed
  have len: "int (length ?cs) = \<lceil>real_of_int D / real_of_int S\<rceil>"
    using nonneg by (simp add: num_segments_ceiling)
  have each: "chunk_no (?cs ! i) = i
           \<and> slice_start (?cs ! i) = int i * S
           \<and> slice_start (?cs ! i) < slice_end (?cs ! i)
           \<and> slice_end (?cs ! i) \<le> slice_start (?cs ! i) + S
           \<and> slice_end (?cs ! i) = (if Suc i < length ?cs then slice_start (?cs ! Suc i) else D)
           \<and> start_time (?cs ! i) = slice_start (?cs ! i) div 1000
           \<and> start_time (?cs ! i) * 1000 \<le> slice_start (?cs ! i)
           \<and> slice_start (?cs ! i) < start_time (?cs ! i) * 1000 + 1000"
    if "i < length ?cs" for i
  proof -
    from that have i: "int i < num_segments D S" by simp
    have suc: "Suc i < length ?cs \<longleftrightarrow> int (Suc i) < num_segments D S"
      using nonneg by auto
    have lt: "int i * S < D" using chunk_bounds(1) [OF assms(3) i] .
    have en: "min ((int i + 1) * S) D =
           (if int (Suc i) < num_segments D S then int (Suc i) * S else D)"
      using chunk_bounds(2) [OF assms(3) i] .
    have st: "slice_start (?cs ! i) = int i * S" "chunk_no (?cs ! i) = i"
      "slice_end (?cs ! i) = min ((int i + 1) * S) D"
      "start_time (?cs ! i) = (int i * S) div 1000"
      using that by (simp_all add: make_chunk_def Let_def)
    have nx: "Suc i < length ?cs \<Longrightarrow> slice_start (?cs ! Suc i) = int (Suc i) * S"
      by (simp add: make_chunk_def Let_def)
    have e1: "slice_start (?cs ! i) < slice_end (?cs ! i)"
      using lt assms(3) by (simp add: st algebra_simps)
    have e2: "slice_end (?cs ! i) \<le> slice_start (?cs ! i) + S"
      by (simp add: st algebra_simps)
    have e3: "slice_end (?cs ! i) = (if Suc i < length ?cs then slice_start (?cs ! Suc i) else D)"
      using en nx suc by (simp add: st)
    have e4: "start_time (?cs ! i) * 1000 \<le> slice_start (?cs ! i)"
      "slice_start (?cs ! i) < start_time (?cs ! i) * 1000 + 1000"
      unfolding st by presburger+
    have e5: "start_time (?cs ! i) = slice_start (?cs ! i) div 1000"
      by (simp add: st)
    from st(1,2) e1 e2 e3 e4 e5 show ?thesis by blast
  qed
  from sa len each show ?thesis by blast
qed


lemma example_split:
  "split_audio 700000 300000 =
     Some [\<lparr>chunk_no = 0, slice_start = 0, slice_end = 300000, start_time = 0\<rparr>,
           \<lparr>chunk_no = 1, slice_start = 300000, slice_end = 600000, start_time = 300\<rparr>,
           \<lparr>chunk_no = 2, slice_start = 600000, slice_end = 700000, start_time = 600\<rparr>]"
  by code_simp

theorem split_audio_cover_witness:
  "(0::int) \<le> 700000 \<and> (700000::int) < 2 ^ 53 \<and> (0::int) < 300000 \<and> (300000::int) < 2 ^ 53
   \<and> split_audio 700000 300000 =
       Some [\<lparr>chunk_no = 0, slice_start = 0, slice_end = 300000, start_time = 0\<rparr>,
             \<lparr>chunk_no = 1, slice_start = 300000, slice_end = 600000, start_time = 300\<rparr>,
             \<lparr>chunk_no = 2, slice_start = 600000, slice_end = 700000, start_time = 600\<rparr>]
   \<and> \<lceil>real_of_int 700000 / real_of_int 300000\<rceil> = 3"
proof -
  have h: "(0::int) \<le> 700000" "(700000::int) < 2 ^ 53" "(0::int) < 300000"
    "(300000::int) < 2 ^ 53"
    by simp_all
  from split_audio_cover [OF h] obtain cs where
    "split_audio 700000 300000 = Some cs"
    and "int (length cs) = \<lceil>real_of_int 700000 / real_of_int 300000\<rceil>"
    by blast
  with example_split have "\<lceil>real_of_int 700000 / real_of_int 300000\<rceil> = 3"
    by simp
  with h example_split show ?thesis by simp
qed


section \<open>The transcription loop\<close>









end
